theory Spec2Isabelle
  imports Complex_Main "HOL-Library.Word"
begin

unbundle bit_operations_syntax

section \<open>The MPU9225 streaming driver (mpu9225stream.py)\<close>

text \<open>
  A shallow embedding of the driver module. Python integers are \<open>int\<close>. Every
  exception the module can raise is a value of \<open>error\<close>; a function that can raise
  returns \<open>error + 'a\<close> with \<open>Inl\<close> for the exception. The I2C bus, the clock and the
  delay primitive belong to the board (modules \<open>pyb\<close> and \<open>utime\<close>) and are not part
  of the module: their answers are taken from an environment \<open>env\<close>, one answer per
  call, and each call is recorded in a trace.
\<close>

subsection \<open>Exceptions\<close>

datatype error =
    OSError string
  | KeyError int
  | UnboundLocalError string
  | ValueError string
  | TypeError string
  | OverflowError string

subsection \<open>Module constants\<close>

definition AX_ADDR :: int where "AX_ADDR = 104"

definition FULL_SCALE :: "int \<rightharpoonup> int" where
  "FULL_SCALE = [2 \<mapsto> push_bit 3 0, 4 \<mapsto> push_bit 3 1, 8 \<mapsto> push_bit 3 2, 16 \<mapsto> push_bit 3 3]"

definition TOP_16BIT :: int where "TOP_16BIT = 65536"

definition INT_STATUS :: int where "INT_STATUS = 0x3A"
definition ACCEL_XOUT_H :: int where "ACCEL_XOUT_H = 0x3B"
definition ACCEL_XOUT_L :: int where "ACCEL_XOUT_L = 0x3C"
definition ACCEL_YOUT_H :: int where "ACCEL_YOUT_H = 0x3D"
definition ACCEL_YOUT_L :: int where "ACCEL_YOUT_L = 0x3E"
definition ACCEL_ZOUT_H :: int where "ACCEL_ZOUT_H = 0x3F"
definition ACCEL_ZOUT_L :: int where "ACCEL_ZOUT_L = 0x40"
definition SMPLRT_DIV :: int where "SMPLRT_DIV = 0x19"
definition WHO_AM_I :: int where "WHO_AM_I = 0x75"
definition PWR_MGMT_1 :: int where "PWR_MGMT_1 = 0x6b"
definition PWR_MGMT_1_CLKSEL_MASK :: int where "PWR_MGMT_1_CLKSEL_MASK = 0x7"
definition PWR_MGMT_1_SLEEP_MASK :: int where "PWR_MGMT_1_SLEEP_MASK = 0x40"
definition ACCEL_CONFIG :: int where "ACCEL_CONFIG = 0x1c"
definition ACCEL_CONFIG2 :: int where "ACCEL_CONFIG2 = 0x1d"
definition ACCEL_FS_SEL_MASK :: int where "ACCEL_FS_SEL_MASK = 0x18"

subsection \<open>Two's complement\<close>

text \<open>
  \<^verbatim>\<open>mask = 2 ** (num_bits - 1); twos_comp = -(val & mask) + (val & ~mask)\<close>.
  For \<open>num_bits < 1\<close> the power has a negative exponent, which Python evaluates to a
  float, and \<open>val & mask\<close> then raises TypeError.
\<close>

definition twos_complement :: "int \<Rightarrow> int \<Rightarrow> error + int" where
  "twos_complement val num_bits =
     (if num_bits - 1 < 0 then Inl (TypeError ''unsupported operand type(s) for &'')
      else
        let mask = 2 ^ nat (num_bits - 1) in
        Inr (- (val AND mask) + (val AND NOT mask)))"

subsection \<open>The board: I2C bus, delay, clock, console\<close>

text \<open>
  \<open>I2C(bus_no, I2C.MASTER, baudrate=baudrate)\<close> is kept as the pair of its arguments;
  the constructor is taken to succeed.
\<close>

record i2c_handle =
  handle_bus :: int
  handle_baudrate :: int

text \<open>
  \<open>ax_send\<close> hands \<open>I2C.send\<close> either a bare integer (the register address, in
  \<open>ax_read\<close>) or a bytearray (in \<open>ax_write\<close>).
\<close>

datatype data = IntData int | Bytearray "int list"

datatype event =
    Init int int
  | Send data int bool
  | Recv "8 word option"
  | Scan "int list"
  | IsReady int bool
  | Delay real
  | Print string
  | Ticks int

text \<open>
  The environment. \<open>FULL_SCALE_CHOICE\<close> is the module's configuration constant (2 in
  the source as shipped; "set the full-scale range here"). The other fields are the
  board's answers: \<open>send_ok k\<close> tells whether the \<open>k\<close>-th call of \<open>I2C.send\<close> succeeds
  (otherwise it raises OSError), \<open>recv_data k\<close> is the byte the \<open>k\<close>-th call of
  \<open>I2C.recv(1, ...)\<close> returns (\<open>None\<close>: it raises OSError), \<open>scan_data k\<close> and
  \<open>ready_data k\<close> are the answers of the \<open>k\<close>-th \<open>scan()\<close> and \<open>is_ready()\<close>,
  \<open>ticks_data k\<close> is the \<open>k\<close>-th reading of \<open>utime.ticks_us()\<close>, and \<open>ticks_diff\<close> is
  \<open>utime.ticks_diff\<close>. Since the module is sequential and deterministic, every
  behaviour of a board in one run is one such environment.
\<close>

record env =
  FULL_SCALE_CHOICE :: int
  send_ok :: "nat \<Rightarrow> bool"
  recv_data :: "nat \<Rightarrow> 8 word option"
  scan_data :: "nat \<Rightarrow> int list"
  ready_data :: "nat \<Rightarrow> bool"
  ticks_data :: "nat \<Rightarrow> int"
  ticks_diff :: "int \<Rightarrow> int \<Rightarrow> int"

text \<open>
  The state: the module globals \<open>_i2c_object\<close> and \<open>_i2c_default_bus\<close>, the number of
  calls made so far to each board primitive, and the trace of all board calls, oldest
  first.
\<close>

record state =
  i2c_object :: "i2c_handle option"
  i2c_default_bus :: int
  n_send :: nat
  n_recv :: nat
  n_scan :: nat
  n_ready :: nat
  n_ticks :: nat
  trace :: "event list"

definition emit :: "event \<Rightarrow> state \<Rightarrow> state" where
  "emit ev s = s\<lparr>trace := trace s @ [ev]\<rparr>"

definition I2C_send :: "env \<Rightarrow> i2c_handle \<Rightarrow> data \<Rightarrow> int \<Rightarrow> state \<Rightarrow> bool \<times> state" where
  "I2C_send e h d addr s =
     (let ok = send_ok e (n_send s)
      in (ok, emit (Send d addr ok) (s\<lparr>n_send := n_send s + 1\<rparr>)))"

definition I2C_recv_1 :: "env \<Rightarrow> i2c_handle \<Rightarrow> int \<Rightarrow> state \<Rightarrow> 8 word option \<times> state" where
  "I2C_recv_1 e h addr s =
     (let r = recv_data e (n_recv s)
      in (r, emit (Recv r) (s\<lparr>n_recv := n_recv s + 1\<rparr>)))"

definition I2C_scan :: "env \<Rightarrow> i2c_handle \<Rightarrow> state \<Rightarrow> int list \<times> state" where
  "I2C_scan e h s =
     (let r = scan_data e (n_scan s)
      in (r, emit (Scan r) (s\<lparr>n_scan := n_scan s + 1\<rparr>)))"

definition I2C_is_ready :: "env \<Rightarrow> i2c_handle \<Rightarrow> int \<Rightarrow> state \<Rightarrow> bool \<times> state" where
  "I2C_is_ready e h addr s =
     (let r = ready_data e (n_ready s)
      in (r, emit (IsReady addr r) (s\<lparr>n_ready := n_ready s + 1\<rparr>)))"

definition utime_ticks_us :: "env \<Rightarrow> state \<Rightarrow> int \<times> state" where
  "utime_ticks_us e s =
     (let t = ticks_data e (n_ticks s)
      in (t, emit (Ticks t) (s\<lparr>n_ticks := n_ticks s + 1\<rparr>)))"

definition pyb_delay :: "real \<Rightarrow> state \<Rightarrow> state" where
  "pyb_delay ms s = emit (Delay ms) s"

definition print :: "string \<Rightarrow> state \<Rightarrow> state" where
  "print msg s = emit (Print msg) s"

subsection \<open>Python built-ins the module uses\<close>

fun digits :: "nat \<Rightarrow> string" where
  "digits n =
     (if n < 10 then [char_of (48 + n)] else digits (n div 10) @ [char_of (48 + n mod 10)])"

declare digits.simps [simp del]

definition str :: "int \<Rightarrow> string" where
  "str i = (if i < 0 then CHR ''-'' # digits (nat (- i)) else digits (nat i))"

fun join :: "string \<Rightarrow> string list \<Rightarrow> string" where
  "join sep [] = []"
| "join sep [x] = x"
| "join sep (x # y # ys) = x @ sep @ join sep (y # ys)"

text \<open>\<open>bytearray(list)\<close> raises ValueError unless every item is in \<open>range(0, 256)\<close>.\<close>

definition bytearray :: "int list \<Rightarrow> error + data" where
  "bytearray xs =
     (if list_all (\<lambda>x. 0 \<le> x \<and> x < 256) xs then Inr (Bytearray xs)
      else Inl (ValueError ''byte must be in range(0, 256)''))"

text \<open>\<open>int.from_bytes(bs, 'big')\<close>.\<close>

definition int_from_bytes_big :: "8 word list \<Rightarrow> int" where
  "int_from_bytes_big bs = fold (\<lambda>b acc. acc * 256 + uint b) bs 0"

text \<open>
  \<open>array.array('i').append(v)\<close>: type code \<open>'i'\<close> is a signed C int, taken as 32 bits;
  a value below or above its range raises OverflowError.
\<close>

definition array_i_append :: "int list \<Rightarrow> int \<Rightarrow> error + int list" where
  "array_i_append buf v =
     (if v < - (2 ^ 31) then Inl (OverflowError ''signed integer is less than minimum'')
      else if 2 ^ 31 \<le> v then Inl (OverflowError ''signed integer is greater than maximum'')
      else Inr (buf @ [v]))"

subsection \<open>The bus handle\<close>

text \<open>The state right after the module has been imported.\<close>

definition module_init :: state where
  "module_init =
     \<lparr>i2c_object = None, i2c_default_bus = 1, n_send = 0, n_recv = 0, n_scan = 0,
      n_ready = 0, n_ticks = 0, trace = []\<rparr>"

text \<open>
  \<^verbatim>\<open>def i2c(bus_no: int=_i2c_default_bus, baudrate: int=400000)\<close>: Python evaluates a
  default argument once, when the \<open>def\<close> statement runs, that is in \<open>module_init\<close>.
\<close>

definition i2c_bus_no_default :: int where
  "i2c_bus_no_default = i2c_default_bus module_init"

definition i2c_baudrate_default :: int where
  "i2c_baudrate_default = 400000"

definition i2c :: "int \<Rightarrow> int \<Rightarrow> state \<Rightarrow> i2c_handle \<times> state" where
  "i2c bus_no baudrate s =
     (case i2c_object s of
        None \<Rightarrow>
          (let h = \<lparr>handle_bus = bus_no, handle_baudrate = baudrate\<rparr>
           in (h, emit (Init bus_no baudrate) (s\<lparr>i2c_object := Some h\<rparr>)))
      | Some h \<Rightarrow> (h, s))"

text \<open>The call \<open>i2c()\<close>, as every caller in the module writes it.\<close>

definition i2c0 :: "state \<Rightarrow> i2c_handle \<times> state" where
  "i2c0 s = i2c i2c_bus_no_default i2c_baudrate_default s"

definition set_i2c_bus :: "int \<Rightarrow> state \<Rightarrow> state" where
  "set_i2c_bus bus_no s = s\<lparr>i2c_default_bus := bus_no\<rparr>"

subsection \<open>Register access\<close>

text \<open>
  The \<open>while\<close> loop of \<open>ax_send\<close>; \<open>attempts\<close> is the loop counter. The delay
  \<open>0.5 * 2 ** attempts\<close> multiplies a float by the integer \<open>2 ** attempts\<close>, which
  Python first converts to a float: from \<open>attempts = 1024\<close> on the integer is beyond
  the range of a double and the conversion raises OverflowError. That happens inside
  the \<open>except OSError\<close> handler, so the error leaves \<open>ax_send\<close>. Below 1024 the product
  is a power of two, exact in binary floating point, and is kept here as the real
  number it denotes; \<open>pyb.delay\<close> is taken to accept it and to return.
\<close>

function ax_send_loop :: "env \<Rightarrow> data \<Rightarrow> int \<Rightarrow> nat \<Rightarrow> state \<Rightarrow> (error + unit) \<times> state" where
  "ax_send_loop e d max_attempts attempts s =
     (if int attempts < max_attempts then
        (case i2c0 s of (h, s1) \<Rightarrow>
           (case I2C_send e h d AX_ADDR s1 of
              (True, s2) \<Rightarrow> (Inr (), s2)
            | (False, s2) \<Rightarrow>
                (if 1024 \<le> attempts then
                   (Inl (OverflowError ''int too large to convert to float''), s2)
                 else
                   ax_send_loop e d max_attempts (attempts + 1)
                     (pyb_delay (0.5 * 2 ^ attempts) s2))))
      else (Inl (OSError ''Failed to send''), s))"
  by pat_completeness auto
termination
  by (relation "measure (\<lambda>(e, d, max_attempts, attempts, s). nat (max_attempts - int attempts))")
    auto

definition ax_send :: "env \<Rightarrow> data \<Rightarrow> int \<Rightarrow> state \<Rightarrow> (error + unit) \<times> state" where
  "ax_send e d max_attempts s = ax_send_loop e d max_attempts 0 s"

text \<open>The default \<open>max_attempts=10\<close>.\<close>

definition ax_send_max_attempts_default :: int where
  "ax_send_max_attempts_default = 10"

definition ax_write :: "env \<Rightarrow> int \<Rightarrow> int \<Rightarrow> state \<Rightarrow> (error + unit) \<times> state" where
  "ax_write e reg val s =
     (case bytearray [reg, val] of
        Inl err \<Rightarrow> (Inl err, s)
      | Inr d \<Rightarrow> ax_send e d ax_send_max_attempts_default s)"

text \<open>\<open>ax_read\<close> returns an integer when \<open>convert\<close> is true and the raw bytes otherwise.\<close>

datatype reading = Raw "8 word list" | Conv int

text \<open>The expression \<open>i2c().recv(1, addr=AX_ADDR)\<close>.\<close>

definition recv_1 :: "env \<Rightarrow> state \<Rightarrow> (error + 8 word list) \<times> state" where
  "recv_1 e s =
     (case i2c0 s of (h, s1) \<Rightarrow>
        (case I2C_recv_1 e h AX_ADDR s1 of
           (None, s2) \<Rightarrow> (Inl (OSError ''I2C recv''), s2)
         | (Some b, s2) \<Rightarrow> (Inr [b], s2)))"

definition ax_read :: "env \<Rightarrow> int \<Rightarrow> bool \<Rightarrow> state \<Rightarrow> (error + reading) \<times> state" where
  "ax_read e reg convert s =
     (case ax_send e (IntData reg) ax_send_max_attempts_default s of
        (Inl err, s1) \<Rightarrow> (Inl err, s1)
      | (Inr _, s1) \<Rightarrow>
          (if convert then
             (case recv_1 e s1 of
                (Inl err, s2) \<Rightarrow> (Inl err, s2)
              | (Inr bs, s2) \<Rightarrow> (Inr (Conv (int_from_bytes_big bs)), s2))
           else
             (case recv_1 e s1 of
                (Inl err, s2) \<Rightarrow> (Inl err, s2)
              | (Inr bs, s2) \<Rightarrow> (Inr (Raw bs), s2))))"

text \<open>
  \<open>ax_write_masked\<close> returns \<open>None\<close> unless \<open>read_after\<close> is set. The branch for a raw
  reading stands for \<open>bytes & int\<close>, a TypeError; \<open>ax_read\<close> with \<open>convert=True\<close> never
  takes it.
\<close>

definition ax_write_masked ::
  "env \<Rightarrow> int \<Rightarrow> int \<Rightarrow> int \<Rightarrow> bool \<Rightarrow> state \<Rightarrow> (error + reading option) \<times> state" where
  "ax_write_masked e reg val bitmask read_after s =
     (let masked_val = val AND bitmask in
      case ax_read e reg True s of
        (Inl err, s1) \<Rightarrow> (Inl err, s1)
      | (Inr (Raw bs), s1) \<Rightarrow> (Inl (TypeError ''unsupported operand type(s) for &''), s1)
      | (Inr (Conv old_val), s1) \<Rightarrow>
          (let reg_val = (old_val AND NOT bitmask) OR masked_val in
           case ax_write e reg reg_val s1 of
             (Inl err, s2) \<Rightarrow> (Inl err, s2)
           | (Inr _, s2) \<Rightarrow>
               (if read_after then
                  (case ax_read e reg True s2 of
                     (Inl err, s3) \<Rightarrow> (Inl err, s3)
                   | (Inr r, s3) \<Rightarrow> (Inr (Some r), s3))
                else (Inr None, s2))))"

text \<open>
  \<open>ax_read_double\<close> returns a list or a single value. On raw readings (which
  \<open>convert=True\<close> never yields) \<open>res_h * 256 + res_l\<close> would repeat and concatenate
  bytes.
\<close>

datatype double_reading = AsList "reading list" | AsInt int | AsBytes "8 word list"

definition ax_read_double ::
  "env \<Rightarrow> int \<Rightarrow> int \<Rightarrow> bool \<Rightarrow> state \<Rightarrow> (error + double_reading) \<times> state" where
  "ax_read_double e addr_h addr_l as_list s =
     (case ax_read e addr_h True s of
        (Inl err, s1) \<Rightarrow> (Inl err, s1)
      | (Inr res_h, s1) \<Rightarrow>
          (case ax_read e addr_l True s1 of
             (Inl err, s2) \<Rightarrow> (Inl err, s2)
           | (Inr res_l, s2) \<Rightarrow>
               (if as_list then (Inr (AsList [res_h, res_l]), s2)
                else
                  (case (res_h, res_l) of
                     (Conv h, Conv l) \<Rightarrow> (Inr (AsInt (h * 256 + l)), s2)
                   | (Raw h, Raw l) \<Rightarrow> (Inr (AsBytes (concat (replicate 256 h) @ l)), s2)
                   | _ \<Rightarrow> (Inl (TypeError ''unsupported operand type(s) for +''), s2)))))"

subsection \<open>Axis readers\<close>

text \<open>
  \<open>ax_x\<close>, \<open>ax_y\<close> and \<open>ax_z\<close> are the same expression on three register pairs:
  \<open>twos_complement(ax_read_double(H, L), 16) * FULL_SCALE_CHOICE // 4\<close>. Python's
  \<open>//\<close> rounds towards minus infinity, as \<open>div\<close> on \<open>int\<close> does.
\<close>

definition ax_axis :: "env \<Rightarrow> int \<Rightarrow> int \<Rightarrow> state \<Rightarrow> (error + int) \<times> state" where
  "ax_axis e addr_h addr_l s =
     (case ax_read_double e addr_h addr_l False s of
        (Inl err, s1) \<Rightarrow> (Inl err, s1)
      | (Inr (AsInt v), s1) \<Rightarrow>
          (case twos_complement v 16 of
             Inl err \<Rightarrow> (Inl err, s1)
           | Inr tc \<Rightarrow> (Inr (tc * FULL_SCALE_CHOICE e div 4), s1))
      | (Inr _, s1) \<Rightarrow> (Inl (TypeError ''unsupported operand type(s) for &''), s1))"

definition ax_x :: "env \<Rightarrow> state \<Rightarrow> (error + int) \<times> state" where
  "ax_x e s = ax_axis e ACCEL_XOUT_H ACCEL_XOUT_L s"

definition ax_y :: "env \<Rightarrow> state \<Rightarrow> (error + int) \<times> state" where
  "ax_y e s = ax_axis e ACCEL_YOUT_H ACCEL_YOUT_L s"

definition ax_z :: "env \<Rightarrow> state \<Rightarrow> (error + int) \<times> state" where
  "ax_z e s = ax_axis e ACCEL_ZOUT_H ACCEL_ZOUT_L s"

subsection \<open>Initialisation\<close>

text \<open>
  The \<open>while True\<close> loop that waits for the device. It may run forever, so it is a
  partial function: \<open>None\<close> means that the loop never exits.
\<close>

partial_function (option) wait_for_device :: "env \<Rightarrow> bool \<Rightarrow> state \<Rightarrow> state option" where
  "wait_for_device e do_scan s =
     (case (if do_scan then
              (case i2c0 s of (h, sa) \<Rightarrow>
                 (case I2C_scan e h sa of (slaves, sb) \<Rightarrow>
                    (AX_ADDR \<in> set slaves,
                     print (''I2C device addresses: '' @ join '', '' (map str slaves)) sb)))
            else (True, s)) of
        (check_ready, s1) \<Rightarrow>
          (if check_ready then
             (case i2c0 s1 of (h, s2) \<Rightarrow>
                (case I2C_is_ready e h AX_ADDR s2 of (ready, s3) \<Rightarrow>
                   (if ready then Some (print ''Ready!'' s3)
                    else
                      wait_for_device e do_scan
                        (pyb_delay 1000 (print ''AX is not ready.'' s3)))))
           else wait_for_device e do_scan (pyb_delay 1000 s1)))"

text \<open>
  After the wait: three masked writes. The argument \<open>FULL_SCALE[FULL_SCALE_CHOICE]\<close>
  of the second is looked up when that call is reached and raises KeyError for a key
  the table does not have.
\<close>

definition init_accelerometer :: "env \<Rightarrow> bool \<Rightarrow> state \<Rightarrow> ((error + unit) \<times> state) option" where
  "init_accelerometer e do_scan s =
     (case wait_for_device e do_scan s of
        None \<Rightarrow> None
      | Some s1 \<Rightarrow>
          Some
            (case ax_write_masked e PWR_MGMT_1 1 PWR_MGMT_1_CLKSEL_MASK False s1 of
               (Inl err, s2) \<Rightarrow> (Inl err, s2)
             | (Inr _, s2) \<Rightarrow>
                 (case FULL_SCALE (FULL_SCALE_CHOICE e) of
                    None \<Rightarrow> (Inl (KeyError (FULL_SCALE_CHOICE e)), s2)
                  | Some fs \<Rightarrow>
                      (case ax_write_masked e ACCEL_CONFIG fs ACCEL_FS_SEL_MASK False s2 of
                         (Inl err, s3) \<Rightarrow> (Inl err, s3)
                       | (Inr _, s3) \<Rightarrow>
                           (case ax_write_masked e PWR_MGMT_1 0 PWR_MGMT_1_SLEEP_MASK False s3 of
                              (Inl err, s4) \<Rightarrow> (Inl err, s4)
                            | (Inr _, s4) \<Rightarrow> (Inr (), s4))))))"

subsection \<open>The sampler\<close>

text \<open>
  The local variables of \<open>read_buf\<close> that the loop changes: the buffer, \<open>prev_t\<close>, and
  \<open>t\<close>, which is unbound (\<open>None\<close>) until the loop body has run once.
\<close>

type_synonym read_buf_locals = "int list \<times> int \<times> int option"

text \<open>
  One pass through the body of \<open>for i in range(number_of_samples)\<close>. The \<open>continue\<close>
  ends the pass; the \<open>for\<close> statement then takes the next \<open>i\<close>.
\<close>

definition read_buf_body ::
  "env \<Rightarrow> int \<Rightarrow> read_buf_locals \<Rightarrow> state \<Rightarrow> (error + read_buf_locals) \<times> state" where
  "read_buf_body e sample_period l s =
     (case l of (buf, prev_t, t_old) \<Rightarrow>
        (case utime_ticks_us e s of (t, s1) \<Rightarrow>
           (if ticks_diff e t prev_t < sample_period then (Inr (buf, prev_t, Some t), s1)
            else
              (case array_i_append buf t of
                 Inl err \<Rightarrow> (Inl err, s1)
               | Inr buf1 \<Rightarrow>
                   (case ax_x e s1 of
                      (Inl err, s2) \<Rightarrow> (Inl err, s2)
                    | (Inr x, s2) \<Rightarrow>
                        (case array_i_append buf1 x of
                           Inl err \<Rightarrow> (Inl err, s2)
                         | Inr buf2 \<Rightarrow>
                             (case ax_y e s2 of
                                (Inl err, s3) \<Rightarrow> (Inl err, s3)
                              | (Inr y, s3) \<Rightarrow>
                                  (case array_i_append buf2 y of
                                     Inl err \<Rightarrow> (Inl err, s3)
                                   | Inr buf3 \<Rightarrow>
                                       (case ax_z e s3 of
                                          (Inl err, s4) \<Rightarrow> (Inl err, s4)
                                        | (Inr z, s4) \<Rightarrow>
                                            (case array_i_append buf3 z of
                                               Inl err \<Rightarrow> (Inl err, s4)
                                             | Inr buf4 \<Rightarrow>
                                                 (Inr (buf4, t, Some t), s4)))))))))))"

text \<open>The \<open>for\<close> loop: \<open>n\<close> passes are left to run.\<close>

primrec read_buf_loop ::
  "env \<Rightarrow> int \<Rightarrow> nat \<Rightarrow> read_buf_locals \<Rightarrow> state \<Rightarrow> (error + read_buf_locals) \<times> state" where
  "read_buf_loop e sample_period 0 l s = (Inr l, s)"
| "read_buf_loop e sample_period (Suc n) l s =
     (case read_buf_body e sample_period l s of
        (Inl err, s1) \<Rightarrow> (Inl err, s1)
      | (Inr l1, s1) \<Rightarrow> read_buf_loop e sample_period n l1 s1)"

text \<open>
  \<open>range(number_of_samples)\<close> has \<open>nat number_of_samples\<close> items (none for a negative
  argument). \<open>return buf, t\<close> raises UnboundLocalError when \<open>t\<close> was never assigned.
\<close>

definition read_buf :: "env \<Rightarrow> int \<Rightarrow> int \<Rightarrow> int \<Rightarrow> state \<Rightarrow> (error + int list \<times> int) \<times> state" where
  "read_buf e number_of_samples sample_period prev_t s =
     (case read_buf_loop e sample_period (nat number_of_samples) ([], prev_t, None) s of
        (Inl err, s1) \<Rightarrow> (Inl err, s1)
      | (Inr (buf, prev_t1, None), s1) \<Rightarrow>
          (Inl (UnboundLocalError ''local variable t referenced before assignment''), s1)
      | (Inr (buf, prev_t1, Some t), s1) \<Rightarrow> (Inr (buf, t), s1))"

subsection \<open>Reading a trace\<close>

text \<open>The bus transfers that went through: successful sends and received bytes.\<close>

fun is_traffic :: "event \<Rightarrow> bool" where
  "is_traffic (Send d addr ok) = ok"
| "is_traffic (Recv r) = (r \<noteq> None)"
| "is_traffic ev = False"

definition traffic :: "event list \<Rightarrow> event list" where
  "traffic es = filter is_traffic es"

text \<open>A register write is a successful send of the two bytes \<open>[reg, value]\<close>.\<close>

fun write_of :: "event \<Rightarrow> (int \<times> int) list" where
  "write_of (Send (Bytearray [reg, v]) addr True) = [(reg, v)]"
| "write_of ev = []"

definition writes :: "event list \<Rightarrow> (int \<times> int) list" where
  "writes es = concat (map write_of es)"

text \<open>The send attempts, successful or not, and the delays, in the order they happened.\<close>

fun is_attempt_or_delay :: "event \<Rightarrow> bool" where
  "is_attempt_or_delay (Send d addr ok) = True"
| "is_attempt_or_delay (Delay ms) = True"
| "is_attempt_or_delay ev = False"

definition retry_log :: "event list \<Rightarrow> event list" where
  "retry_log es = filter is_attempt_or_delay es"


text \<open>The delays alone.\<close>

fun delay_of :: "event \<Rightarrow> real list" where
  "delay_of (Delay ms) = [ms]"
| "delay_of ev = []"

definition delays :: "event list \<Rightarrow> real list" where
  "delays es = concat (map delay_of es)"

text \<open>The timestamps of a sample buffer: the first entry of every quadruple.\<close>

fun timestamps :: "int list \<Rightarrow> int list" where
  "timestamps (t # x # y # z # rest) = t # timestamps rest"
| "timestamps rest = []"

text \<open>The four buffer entries of one sample, and a sample list laid out as a buffer.\<close>

fun quadruple :: "int \<times> int \<times> int \<times> int \<Rightarrow> int list" where
  "quadruple (t, x, y, z) = [t, x, y, z]"

definition flatten :: "(int \<times> int \<times> int \<times> int) list \<Rightarrow> int list" where
  "flatten qs = concat (map quadruple qs)"

text \<open>
  \<open>spaced diff period prev ts\<close>: every timestamp of \<open>ts\<close> is at least \<open>period\<close> after
  the one before it, the first one after \<open>prev\<close>, as measured by \<open>diff\<close>.
\<close>

fun spaced :: "(int \<Rightarrow> int \<Rightarrow> int) \<Rightarrow> int \<Rightarrow> int \<Rightarrow> int list \<Rightarrow> bool" where
  "spaced diff period prev [] = True"
| "spaced diff period prev (t # ts) = (period \<le> diff t prev \<and> spaced diff period t ts)"

subsection \<open>An example board\<close>

text \<open>
  A board on which every transfer succeeds, every register reads 0x12, the device
  answers at once, the clock advances by one millisecond per reading, and
  \<open>ticks_diff\<close> is the wrap-around difference of a 30-bit counter, as MicroPython
  documents it. It is the concrete input of the examples below, varied field by field.
\<close>

definition example_board :: env where
  "example_board =
     \<lparr>FULL_SCALE_CHOICE = 2, send_ok = (\<lambda>k. True), recv_data = (\<lambda>k. Some 0x12),
      scan_data = (\<lambda>k. [104]), ready_data = (\<lambda>k. True),
      ticks_data = (\<lambda>k. 1000 * (int k + 1)),
      ticks_diff = (\<lambda>a b. (a - b + 2 ^ 29) mod 2 ^ 30 - 2 ^ 29)\<rparr>"


section \<open>Properties\<close>

subsection \<open>Bit-level facts about Python integers\<close>

lemma and_exp_int: "(raw::int) AND 2 ^ n = (if bit raw n then 2 ^ n else 0)"
  by (rule bit_eqI) (auto simp add: bit_and_iff bit_exp_iff)

lemma and_not_split: "((a::int) AND m) + (a AND NOT m) = a"
proof -
  have "(a AND m) + (a AND NOT m) = (a AND m) OR (a AND NOT m)"
    by (rule disjunctive_add_eq_or) (simp add: bit_eq_iff bit_and_iff bit_not_iff)
  also have "\<dots> = a"
    by (auto simp add: bit_eq_iff bit_and_iff bit_or_iff bit_not_iff)
  finally show ?thesis .
qed

lemma bit15:
  assumes "0 \<le> (raw::int)" "raw \<le> 65535"
  shows "bit raw 15 = (32768 \<le> raw)"
proof (cases "32768 \<le> raw")
  case True
  have "raw div 32768 = (raw - 32768) div 32768 + 1"
    by simp
  moreover have "(raw - 32768) div 32768 = 0"
    using True assms by simp
  ultimately have "raw div 32768 = 1" by simp
  with True show ?thesis by (simp add: bit_iff_odd)
next
  case False
  with assms have "raw div 32768 = 0" by simp
  with False show ?thesis by (simp add: bit_iff_odd)
qed

lemma and_32768:
  assumes "0 \<le> (raw::int)" "raw \<le> 65535"
  shows "raw AND 32768 = (if 32768 \<le> raw then 32768 else 0)"
proof -
  have "raw AND 2 ^ 15 = (if bit raw 15 then 2 ^ 15 else 0)"
    by (rule and_exp_int)
  then show ?thesis
    by (simp only: bit15 [OF assms]) simp
qed

subsection \<open>Two's-complement decoding at width 16\<close>

lemma twos_complement_16_value:
  assumes "0 \<le> raw" "raw \<le> 65535"
  shows "twos_complement raw 16 = Inr (if 32768 \<le> raw then raw - 65536 else raw)"
proof -
  have m: "raw AND 32768 = (if 32768 \<le> raw then 32768 else 0)"
    using assms by (rule and_32768)
  have "(raw AND 32768) + (raw AND NOT 32768) = raw"
    by (rule and_not_split)
  then have n: "raw AND NOT 32768 = raw - (raw AND 32768)"
    by linarith
  have "twos_complement raw 16 = Inr (- (raw AND 32768) + (raw AND NOT 32768))"
    by (simp add: twos_complement_def)
  also have "\<dots> = Inr (if 32768 \<le> raw then raw - 65536 else raw)"
    unfolding n m by simp
  finally show ?thesis .
qed

text \<open>
  Claim C3. At width 16, \<open>twos_complement\<close> sends 0x0000 to 0, 0x7FFF to 32767, 0x8000
  to -32768 and 0xFFFF to -1; on every raw value in [0, 65535] it returns raw - 65536
  when raw is at least 32768 and raw otherwise; and it is a bijection from [0, 65535]
  onto [-32768, 32767].
\<close>

theorem twos_complement_16:
  "twos_complement 0x0000 16 = Inr 0 \<and>
   twos_complement 0x7FFF 16 = Inr 32767 \<and>
   twos_complement 0x8000 16 = Inr (- 32768) \<and>
   twos_complement 0xFFFF 16 = Inr (- 1) \<and>
   (\<forall>raw\<in>{0..65535}.
      twos_complement raw 16 = Inr (if 32768 \<le> raw then raw - 65536 else raw)) \<and>
   bij_betw (\<lambda>raw. projr (twos_complement raw 16)) {0..65535} {- 32768..32767}"
proof -
  let ?g = "\<lambda>v::int. if v < 0 then v + 65536 else v"
  have v: "\<forall>raw\<in>{0..65535}.
      twos_complement raw 16 = Inr (if 32768 \<le> raw then raw - 65536 else raw)"
    by (simp add: twos_complement_16_value)
  have b: "bij_betw (\<lambda>raw. projr (twos_complement raw 16)) {0..65535} {- 32768..32767}"
  proof (rule bij_betw_byWitness [where f' = ?g])
    show "\<forall>a\<in>{0..65535}. ?g (projr (twos_complement a 16)) = a"
      by (simp add: twos_complement_16_value)
    show "\<forall>a'\<in>{- 32768..32767}. projr (twos_complement (?g a') 16) = a'"
      by (simp add: twos_complement_16_value)
    show "(\<lambda>raw. projr (twos_complement raw 16)) ` {0..65535} \<subseteq> {- 32768..32767}"
      by (auto simp add: twos_complement_16_value)
    show "?g ` {- 32768..32767} \<subseteq> {0..65535}"
      by auto
  qed
  have c: "twos_complement 0x0000 16 = Inr 0" "twos_complement 0x7FFF 16 = Inr 32767"
    "twos_complement 0x8000 16 = Inr (- 32768)" "twos_complement 0xFFFF 16 = Inr (- 1)"
    by (simp_all add: twos_complement_16_value)
  from v b c show ?thesis by blast
qed

theorem twos_complement_16_witness:
  "twos_complement 40000 16 = Inr (- 25536) \<and> twos_complement 1234 16 = Inr 1234"
  using twos_complement_16 by simp

subsection \<open>Effects of the board primitives on the trace\<close>

declare ax_send_loop.simps [simp del]

lemma trace_emit [simp]: "trace (emit ev s) = trace s @ [ev]"
  and n_send_emit [simp]: "n_send (emit ev s) = n_send s"
  and i2c_object_emit [simp]: "i2c_object (emit ev s) = i2c_object s"
  by (simp_all add: emit_def)

lemma traffic_append [simp]: "traffic (xs @ ys) = traffic xs @ traffic ys"
  and traffic_Nil [simp]: "traffic [] = []"
  and traffic_Cons [simp]: "traffic (ev # es) = (if is_traffic ev then ev # traffic es else traffic es)"
  by (simp_all add: traffic_def)

lemma writes_append [simp]: "writes (xs @ ys) = writes xs @ writes ys"
  and writes_Nil [simp]: "writes [] = []"
  and writes_Cons [simp]: "writes (ev # es) = write_of ev @ writes es"
  by (simp_all add: writes_def)

lemma retry_log_append [simp]: "retry_log (xs @ ys) = retry_log xs @ retry_log ys"
  and retry_log_Nil [simp]: "retry_log [] = []"
  and retry_log_Cons [simp]:
    "retry_log (ev # es) = (if is_attempt_or_delay ev then ev # retry_log es else retry_log es)"
  by (simp_all add: retry_log_def)

lemma write_of_not_traffic: "\<not> is_traffic ev \<Longrightarrow> write_of ev = []"
  by (cases ev rule: write_of.cases) simp_all

lemma writes_traffic: "writes (traffic es) = writes es"
  by (induction es) (simp_all add: write_of_not_traffic)

lemma i2c0_effect:
  assumes "i2c0 s = (h, s1)"
  shows "traffic (trace s1) = traffic (trace s)" "retry_log (trace s1) = retry_log (trace s)"
    "n_send s1 = n_send s" "i2c_object s1 \<noteq> None"
  using assms by (auto simp add: i2c0_def i2c_def Let_def split: option.splits)

lemma i2c0_again:
  assumes "i2c_object s \<noteq> None"
  shows "snd (i2c0 s) = s"
  using assms by (auto simp add: i2c0_def i2c_def)

lemma I2C_send_effect:
  assumes "I2C_send e h d a s = (ok, s1)"
  shows "ok = send_ok e (n_send s)" "trace s1 = trace s @ [Send d a ok]"
    "n_send s1 = Suc (n_send s)" "i2c_object s1 = i2c_object s"
  using assms by (auto simp add: I2C_send_def Let_def)

lemma I2C_recv_1_effect:
  assumes "I2C_recv_1 e h a s = (r, s1)"
  shows "trace s1 = trace s @ [Recv r]"
  using assms by (auto simp add: I2C_recv_1_def Let_def)

lemma pyb_delay_simps [simp]:
  "trace (pyb_delay ms s) = trace s @ [Delay ms]" "n_send (pyb_delay ms s) = n_send s"
  "i2c_object (pyb_delay ms s) = i2c_object s"
  by (simp_all add: pyb_delay_def)

lemma print_simps [simp]:
  "trace (print msg s) = trace s @ [Print msg]"
  by (simp_all add: print_def)

subsection \<open>Sending with retries\<close>

text \<open>
  Whatever the board does, a send leaves one transfer on the bus if it returns and
  none if it raises.
\<close>

lemma ax_send_loop_traffic:
  "ax_send_loop e d m a s = (r, s') \<Longrightarrow>
   traffic (trace s') = traffic (trace s) @ (case r of Inl err \<Rightarrow> [] | Inr u \<Rightarrow> [Send d AX_ADDR True])"
proof (induction e d m a s rule: ax_send_loop.induct)
  case (1 e d m a s)
  show ?case
  proof (cases "int a < m")
    case False
    with "1.prems" show ?thesis by (auto simp add: ax_send_loop.simps)
  next
    case True
    obtain h s1 where h: "i2c0 s = (h, s1)" by (cases "i2c0 s")
    obtain ok s2 where o: "I2C_send e h d AX_ADDR s1 = (ok, s2)" by (cases "I2C_send e h d AX_ADDR s1")
    show ?thesis
    proof (cases ok)
      case True
      with \<open>int a < m\<close> h o "1.prems" have "r = Inr ()" "s' = s2"
        by (simp_all add: ax_send_loop.simps)
      with True show ?thesis
        using i2c0_effect(1) [OF h] I2C_send_effect(2) [OF o] by simp
    next
      case False
      then have okF: "ok = False" by simp
      show ?thesis
      proof (cases "1024 \<le> a")
        case True
        with \<open>int a < m\<close> h o okF "1.prems"
        have "r = Inl (OverflowError ''int too large to convert to float'')" "s' = s2"
          by (simp_all add: ax_send_loop.simps)
        with okF show ?thesis
          using i2c0_effect(1) [OF h] I2C_send_effect(2) [OF o] by simp
      next
        case False
        with \<open>int a < m\<close> h o okF "1.prems"
        have "ax_send_loop e d m (a + 1) (pyb_delay (0.5 * 2 ^ a) s2) = (r, s')"
          by (simp add: ax_send_loop.simps)
        with False
        have "traffic (trace s') = traffic (trace (pyb_delay (0.5 * 2 ^ a) s2)) @
            (case r of Inl err \<Rightarrow> [] | Inr u \<Rightarrow> [Send d AX_ADDR True])"
          using "1.IH" [OF \<open>int a < m\<close> h [symmetric] o [symmetric] okF] by simp
        with okF show ?thesis
          using i2c0_effect(1) [OF h] I2C_send_effect(2) [OF o] by simp
      qed
    qed
  qed
qed

lemma delays_append [simp]: "delays (xs @ ys) = delays xs @ delays ys"
  and delays_Nil [simp]: "delays [] = []"
  and delays_Cons [simp]: "delays (ev # es) = delay_of ev @ delays es"
  by (simp_all add: delays_def)












subsection \<open>Register reads and writes\<close>

lemma I2C_recv_1_traffic:
  assumes "I2C_recv_1 e h a s = (r, s1)"
  shows "traffic (trace s1) = traffic (trace s) @ (case r of None \<Rightarrow> [] | Some b \<Rightarrow> [Recv (Some b)])"
  using I2C_recv_1_effect [OF assms] by (simp split: option.splits)

lemma recv_1_effect:
  assumes "recv_1 e s = (r, s')"
  shows "case r of
           Inl err \<Rightarrow> traffic (trace s') = traffic (trace s)
         | Inr bs \<Rightarrow> \<exists>b. bs = [b] \<and> traffic (trace s') = traffic (trace s) @ [Recv (Some b)]"
proof -
  obtain h s1 where h: "i2c0 s = (h, s1)" by (cases "i2c0 s")
  obtain x s2 where x: "I2C_recv_1 e h AX_ADDR s1 = (x, s2)"
    by (cases "I2C_recv_1 e h AX_ADDR s1")
  from assms h x show ?thesis
    using i2c0_effect(1) [OF h] I2C_recv_1_traffic [OF x]
    by (auto simp add: recv_1_def split: option.splits)
qed

lemma ax_send_traffic:
  "ax_send e d m s = (r, s') \<Longrightarrow>
   traffic (trace s') = traffic (trace s) @ (case r of Inl err \<Rightarrow> [] | Inr u \<Rightarrow> [Send d AX_ADDR True])"
  unfolding ax_send_def by (rule ax_send_loop_traffic)

lemma int_from_bytes_big_1 [simp]: "int_from_bytes_big [b] = uint b"
  by (simp add: int_from_bytes_big_def)

text \<open>
  A read that returns has put the register address and then one received byte on the
  bus, and its value is that byte. A read that raises has put at most the register
  address on the bus.
\<close>

lemma ax_read_effect:
  assumes "ax_read e reg convert s = (r, s')"
  shows "case r of
           Inl err \<Rightarrow>
             traffic (trace s') = traffic (trace s) \<or>
             traffic (trace s') = traffic (trace s) @ [Send (IntData reg) AX_ADDR True]
         | Inr v \<Rightarrow> \<exists>b. v = (if convert then Conv (uint b) else Raw [b]) \<and>
               traffic (trace s') =
                 traffic (trace s) @ [Send (IntData reg) AX_ADDR True, Recv (Some b)]"
proof -
  obtain r1 s1 where a: "ax_send e (IntData reg) ax_send_max_attempts_default s = (r1, s1)"
    by (cases "ax_send e (IntData reg) ax_send_max_attempts_default s")
  note t1 = ax_send_traffic [OF a]
  show ?thesis
  proof (cases r1)
    case (Inl err)
    with assms a have "r = Inl err" "s' = s1" by (simp_all add: ax_read_def)
    with t1 Inl show ?thesis by simp
  next
    case (Inr u)
    obtain r2 s2 where b: "recv_1 e s1 = (r2, s2)" by (cases "recv_1 e s1")
    note t2 = recv_1_effect [OF b]
    show ?thesis
    proof (cases r2)
      case (Inl err)
      with assms a b Inr have "r = Inl err" "s' = s2"
        by (auto simp add: ax_read_def split: if_splits)
      moreover from t1 t2 Inl Inr
      have "traffic (trace s2) = traffic (trace s) @ [Send (IntData reg) AX_ADDR True]" by simp
      ultimately show ?thesis by simp
    next
      case (Inr bs)
      with t2 obtain b' where bs: "bs = [b']"
          "traffic (trace s2) = traffic (trace s1) @ [Recv (Some b')]" by auto
      from assms a b Inr \<open>r1 = Inr u\<close> bs
      have "r = Inr (if convert then Conv (uint b') else Raw [b'])" "s' = s2"
        by (auto simp add: ax_read_def split: if_splits)
      with t1 bs(2) \<open>r1 = Inr u\<close> show ?thesis by simp
    qed
  qed
qed

lemma ax_read_writes:
  assumes "ax_read e reg convert s = (r, s')"
  shows "writes (trace s') = writes (trace s)"
proof -
  have "writes (traffic (trace s')) = writes (traffic (trace s))"
    using ax_read_effect [OF assms] by (cases r) auto
  then show ?thesis by (simp only: writes_traffic)
qed

lemma ax_read_convert:
  assumes "ax_read e reg True s = (Inr v, s')"
  shows "\<exists>b::8 word. v = Conv (uint b)"
  using ax_read_effect [OF assms] by auto

lemma ax_write_effect:
  assumes "ax_write e reg v s = (r, s')"
  shows "writes (trace s') = writes (trace s) @ (case r of Inl err \<Rightarrow> [] | Inr u \<Rightarrow> [(reg, v)])"
proof (cases "bytearray [reg, v]")
  case (Inl err)
  with assms show ?thesis by (auto simp add: ax_write_def)
next
  case (Inr d)
  then have d: "d = Bytearray [reg, v]" by (simp add: bytearray_def split: if_splits)
  from assms Inr have "ax_send e d ax_send_max_attempts_default s = (r, s')"
    by (simp add: ax_write_def)
  from ax_send_traffic [OF this]
  have "writes (traffic (trace s')) =
      writes (traffic (trace s) @ (case r of Inl err \<Rightarrow> [] | Inr u \<Rightarrow> [Send d AX_ADDR True]))"
    by simp
  then show ?thesis
    unfolding d by (simp add: writes_traffic split: sum.splits)
qed

subsection \<open>Masked update\<close>

lemma masked_update_keeps_bits:
  "\<not> bit bitmask n \<Longrightarrow> bit (((old::int) AND NOT bitmask) OR (v AND bitmask)) n = bit old n"
  by (simp add: bit_or_iff bit_and_iff bit_not_iff)

lemma ax_write_masked_cases:
  assumes "ax_write_masked e reg v bitmask read_after s = (r, s')"
  shows "(\<exists>old s1. ax_read e reg True s = (Inr (Conv old), s1) \<and>
            writes (trace s') =
              writes (trace s) @ [(reg, (old AND NOT bitmask) OR (v AND bitmask))] \<and>
            (read_after \<or> r = Inr None)) \<or>
         (isl r \<and> writes (trace s') = writes (trace s))"
proof -
  obtain r1 s1 where a: "ax_read e reg True s = (r1, s1)" by (cases "ax_read e reg True s")
  note w1 = ax_read_writes [OF a]
  show ?thesis
  proof (cases r1)
    case (Inl err)
    with assms a have "r = Inl err" "s' = s1" by (simp_all add: ax_write_masked_def)
    with w1 show ?thesis by simp
  next
    case (Inr rd)
    with a ax_read_convert obtain b :: "8 word" where rd: "rd = Conv (uint b)" by blast
    let ?new = "(uint b AND NOT bitmask) OR (v AND bitmask)"
    obtain r2 s2 where b: "ax_write e reg ?new s1 = (r2, s2)" by (cases "ax_write e reg ?new s1")
    note w2 = ax_write_effect [OF b]
    show ?thesis
    proof (cases r2)
      case (Inl err)
      with assms a b Inr rd have "r = Inl err" "s' = s2"
        by (simp_all add: ax_write_masked_def)
      with w1 w2 Inl show ?thesis by simp
    next
      case r2: (Inr u)
      have a': "ax_read e reg True s = (Inr (Conv (uint b)), s1)" using a Inr rd by simp
      show ?thesis
      proof (cases read_after)
        case False
        with assms a b Inr rd r2 have "r = Inr None" "s' = s2"
          by (simp_all add: ax_write_masked_def)
        with w1 w2 r2 a' show ?thesis by auto
      next
        case True
        obtain r3 s3 where c: "ax_read e reg True s2 = (r3, s3)" by (cases "ax_read e reg True s2")
        note w3 = ax_read_writes [OF c]
        from assms a b c Inr rd r2 True have "s' = s3"
          by (auto simp add: ax_write_masked_def split: sum.splits)
        with w1 w2 w3 r2 a' True show ?thesis by auto
      qed
    qed
  qed
qed

text \<open>
  Claim C2. \<open>ax_write_masked\<close> on register \<open>reg\<close> with \<open>value\<close> and \<open>bitmask\<close>, where
  \<open>old\<close> is the register content it read: the register write it issues is exactly
  \<open>(old & ~bitmask) | (value & bitmask)\<close> to \<open>reg\<close>, whose bits outside the bitmask are
  those of \<open>old\<close> whatever \<open>value\<close> holds there. It issues no other register write, and
  none at all only when it raises.
\<close>

theorem ax_write_masked_written:
  assumes "ax_write_masked e reg v bitmask read_after s = (r, s')"
  shows "(\<exists>old s1. ax_read e reg True s = (Inr (Conv old), s1) \<and>
            writes (trace s') =
              writes (trace s) @ [(reg, (old AND NOT bitmask) OR (v AND bitmask))] \<and>
            (\<forall>n. \<not> bit bitmask n \<longrightarrow>
               bit ((old AND NOT bitmask) OR (v AND bitmask)) n = bit old n)) \<or>
         (isl r \<and> writes (trace s') = writes (trace s))"
  using ax_write_masked_cases [OF assms] by (auto simp add: masked_update_keeps_bits)

text \<open>The equations that run the register layer on a concrete board.\<close>

lemmas run_simps =
  ax_write_masked_def ax_read_double_def ax_read_def ax_write_def ax_send_def
  ax_send_loop.simps ax_send_max_attempts_default_def recv_1_def i2c0_def i2c_def
  i2c_bus_no_default_def i2c_baudrate_default_def I2C_send_def I2C_recv_1_def emit_def
  pyb_delay_def bytearray_def module_init_def example_board_def Let_def

theorem ax_write_masked_written_witness:
  "\<exists>s'. ax_write_masked example_board PWR_MGMT_1 1 PWR_MGMT_1_CLKSEL_MASK False module_init =
          (Inr None, s') \<and>
        writes (trace s') = [(PWR_MGMT_1, 17)]"
proof -
  obtain r s' where run:
    "ax_write_masked example_board PWR_MGMT_1 1 PWR_MGMT_1_CLKSEL_MASK False module_init = (r, s')"
    by (cases "ax_write_masked example_board PWR_MGMT_1 1 PWR_MGMT_1_CLKSEL_MASK False module_init")
  have rd: "fst (ax_read example_board PWR_MGMT_1 True module_init) = Inr (Conv 18)"
    by (simp add: run_simps)
  have r: "r = Inr None"
    using run by (simp add: run_simps PWR_MGMT_1_def PWR_MGMT_1_CLKSEL_MASK_def)
  have "(18 AND NOT PWR_MGMT_1_CLKSEL_MASK) OR (1 AND PWR_MGMT_1_CLKSEL_MASK) = (17::int)"
    by (simp add: PWR_MGMT_1_CLKSEL_MASK_def)
  with ax_write_masked_written [OF run] rd r
  have "writes (trace s') = [(PWR_MGMT_1, 17)]"
    by (auto simp add: module_init_def)
  with run r show ?thesis by simp
qed

subsection \<open>Double-register read\<close>

text \<open>
  Claim C8. \<open>ax_read_double\<close>: with \<open>high\<close> and \<open>low\<close> the bytes the device returns, the
  call returns \<open>high * 256 + low\<close> in its combined form and the list \<open>[high, low]\<close> in
  its list form; on the bus the address of the high register goes out, and its byte
  comes back, before the address of the low register goes out. A call that raises has
  put a proper prefix of these four transfers on the bus.
\<close>

theorem ax_read_double_value:
  assumes "ax_read_double e addr_h addr_l as_list s = (r, s')"
  shows "\<exists>es. traffic (trace s') = traffic (trace s) @ es \<and>
          (case r of
             Inr v \<Rightarrow>
               (\<exists>high low.
                  es = [Send (IntData addr_h) AX_ADDR True, Recv (Some high),
                        Send (IntData addr_l) AX_ADDR True, Recv (Some low)] \<and>
                  v = (if as_list then AsList [Conv (uint high), Conv (uint low)]
                       else AsInt (uint high * 256 + uint low)))
           | Inl err \<Rightarrow>
               es = [] \<or> es = [Send (IntData addr_h) AX_ADDR True] \<or>
               (\<exists>high.
                  es = [Send (IntData addr_h) AX_ADDR True, Recv (Some high)] \<or>
                  es = [Send (IntData addr_h) AX_ADDR True, Recv (Some high),
                        Send (IntData addr_l) AX_ADDR True]))"
proof -
  obtain r1 s1 where a: "ax_read e addr_h True s = (r1, s1)" by (cases "ax_read e addr_h True s")
  note t1 = ax_read_effect [OF a]
  show ?thesis
  proof (cases r1)
    case (Inl err)
    with assms a have "r = Inl err" "s' = s1" by (simp_all add: ax_read_double_def)
    with t1 Inl show ?thesis by auto
  next
    case (Inr res_h)
    with t1 obtain high :: "8 word" where h: "res_h = Conv (uint high)"
        "traffic (trace s1) = traffic (trace s) @ [Send (IntData addr_h) AX_ADDR True, Recv (Some high)]"
      by auto
    obtain r2 s2 where b: "ax_read e addr_l True s1 = (r2, s2)" by (cases "ax_read e addr_l True s1")
    note t2 = ax_read_effect [OF b]
    show ?thesis
    proof (cases r2)
      case (Inl err)
      with assms a b Inr have "r = Inl err" "s' = s2" by (simp_all add: ax_read_double_def)
      with t2 Inl h(2) show ?thesis by auto
    next
      case r2: (Inr res_l)
      with t2 obtain low :: "8 word" where l: "res_l = Conv (uint low)"
          "traffic (trace s2) = traffic (trace s1) @ [Send (IntData addr_l) AX_ADDR True, Recv (Some low)]"
        by auto
      from assms a b Inr r2 h(1) l(1)
      have "r = Inr (if as_list then AsList [Conv (uint high), Conv (uint low)]
                     else AsInt (uint high * 256 + uint low))" "s' = s2"
        by (auto simp add: ax_read_double_def split: if_splits)
      with h(2) l(2) show ?thesis by simp
    qed
  qed
qed

theorem ax_read_double_value_witness:
  "\<exists>s'. ax_read_double example_board ACCEL_XOUT_H ACCEL_XOUT_L False module_init =
          (Inr (AsInt (18 * 256 + 18)), s') \<and>
        traffic (trace s') =
          [Send (IntData ACCEL_XOUT_H) AX_ADDR True, Recv (Some 18),
           Send (IntData ACCEL_XOUT_L) AX_ADDR True, Recv (Some 18)]"
proof -
  obtain r s' where run:
    "ax_read_double example_board ACCEL_XOUT_H ACCEL_XOUT_L False module_init = (r, s')"
    by (cases "ax_read_double example_board ACCEL_XOUT_H ACCEL_XOUT_L False module_init")
  have r: "r = Inr (AsInt (18 * 256 + 18))"
    using run by (simp add: run_simps)
  from ax_read_double_value [OF run] r
  obtain high low :: "8 word" where t: "traffic (trace s') =
      [Send (IntData ACCEL_XOUT_H) AX_ADDR True, Recv (Some high),
       Send (IntData ACCEL_XOUT_L) AX_ADDR True, Recv (Some low)]"
    by (auto simp add: module_init_def)
  have "traffic (trace s') ! 1 = Recv (Some 18)" "traffic (trace s') ! 3 = Recv (Some 18)"
    using run by (auto simp add: run_simps AX_ADDR_def)
  with t have "high = 18" "low = 18" by simp_all
  with t run r show ?thesis by simp
qed

subsection \<open>The bus handle and its configuration\<close>

lemma set_i2c_bus_no_effect_on_i2c0:
  "fst (i2c0 (set_i2c_bus b s)) = fst (i2c0 s)"
  by (simp add: i2c0_def i2c_def set_i2c_bus_def Let_def split: option.splits)

lemma i2c0_handle_fixed:
  "i2c0 s = (h, s1) \<Longrightarrow> i2c0 (set_i2c_bus b s1) = (h, set_i2c_bus b s1)"
  by (auto simp add: i2c0_def i2c_def set_i2c_bus_def Let_def emit_def split: option.splits)

text \<open>
  Claim C7 asks that \<open>set_i2c_bus b\<close> before the first \<open>i2c()\<close> puts the handle on bus
  \<open>b\<close>. The code does not do that: the default of \<open>bus_no\<close> was bound to 1 when
  \<open>def i2c\<close> ran, and \<open>set_i2c_bus\<close> only changes the global \<open>_i2c_default_bus\<close>, which
  nothing reads afterwards. After \<open>set_i2c_bus(2)\<close> in a fresh module, the first
  \<open>i2c()\<close> builds the handle on bus 1.
\<close>

theorem set_i2c_bus_ignored:
  "i2c0 (set_i2c_bus 2 module_init) =
     (\<lparr>handle_bus = 1, handle_baudrate = 400000\<rparr>,
      \<lparr>i2c_object = Some \<lparr>handle_bus = 1, handle_baudrate = 400000\<rparr>, i2c_default_bus = 2,
       n_send = 0, n_recv = 0, n_scan = 0, n_ready = 0, n_ticks = 0,
       trace = [Init 1 400000]\<rparr>)"
  by (simp add: i2c0_def i2c_def set_i2c_bus_def module_init_def i2c_bus_no_default_def
      i2c_baudrate_default_def Let_def emit_def)

subsection \<open>The sampler\<close>

text \<open>
  Claim C10. With \<open>number_of_samples = 0\<close> the sampler never returns a buffer and a
  timestamp: the loop body does not run, \<open>t\<close> stays unbound, and \<open>return buf, t\<close>
  raises, whatever \<open>sample_period\<close> and \<open>prev_t\<close> are.
\<close>

theorem read_buf_zero_samples:
  "read_buf e 0 sample_period prev_t s =
     (Inl (UnboundLocalError ''local variable t referenced before assignment''), s)"
  by (simp add: read_buf_def)

lemma flatten_simps [simp]:
  "flatten [] = []" "flatten (q # qs) = quadruple q @ flatten qs"
  "flatten (qs @ qs') = flatten qs @ flatten qs'"
  by (simp_all add: flatten_def)


lemma timestamps_flatten: "timestamps (flatten qs) = map fst qs"
  by (induction qs) auto

lemma spaced_append:
  "spaced diff period prev (ts @ us) =
     (spaced diff period prev ts \<and> spaced diff period (last (prev # ts)) us)"
  by (induction ts arbitrary: prev) auto

lemma spaced_nth:
  "spaced diff period prev ts \<Longrightarrow> i < length ts \<Longrightarrow>
   period \<le> diff (ts ! i) (if i = 0 then prev else ts ! (i - 1))"
proof (induction ts arbitrary: prev i)
  case Nil
  then show ?case by simp
next
  case (Cons t ts)
  show ?case
  proof (cases i)
    case 0
    with Cons.prems show ?thesis by simp
  next
    case (Suc j)
    with Cons.prems have "spaced diff period t ts" "j < length ts" by simp_all
    from Cons.IH [OF this] Suc show ?thesis by (cases j) simp_all
  qed
qed

lemma array_i_append_Inr: "array_i_append buf v = Inr buf' \<Longrightarrow> buf' = buf @ [v]"
  by (simp add: array_i_append_def split: if_splits)

text \<open>
  One pass of the loop either skips (the buffer and \<open>prev_t\<close> stay as they are, the
  elapsed time was below the period) or captures (four entries are appended, the
  elapsed time was at least the period, and \<open>prev_t\<close> becomes the new timestamp).
\<close>

lemma read_buf_body_cases:
  assumes "read_buf_body e sample_period (buf, prev_t, t_old) s = (Inr (buf', prev_t', t'), s')"
  shows "(\<exists>t. utime_ticks_us e s = (t, s') \<and> ticks_diff e t prev_t < sample_period \<and>
              buf' = buf \<and> prev_t' = prev_t \<and> t' = Some t) \<or>
         (\<exists>t x y z s1 s2 s3.
              utime_ticks_us e s = (t, s1) \<and> \<not> ticks_diff e t prev_t < sample_period \<and>
              ax_x e s1 = (Inr x, s2) \<and> ax_y e s2 = (Inr y, s3) \<and> ax_z e s3 = (Inr z, s') \<and>
              buf' = buf @ [t, x, y, z] \<and> prev_t' = t \<and> t' = Some t)"
proof -
  obtain t s1 where a: "utime_ticks_us e s = (t, s1)" by (cases "utime_ticks_us e s")
  show ?thesis
  proof (cases "ticks_diff e t prev_t < sample_period")
    case True
    with assms a show ?thesis by (simp add: read_buf_body_def)
  next
    case False
    obtain rx s2 where x: "ax_x e s1 = (rx, s2)" by (cases "ax_x e s1")
    obtain ry s3 where y: "ax_y e s2 = (ry, s3)" by (cases "ax_y e s2")
    obtain rz s4 where z: "ax_z e s3 = (rz, s4)" by (cases "ax_z e s3")
    from assms a False x y z show ?thesis
      by (auto simp add: read_buf_body_def dest!: array_i_append_Inr split: sum.splits)
  qed
qed

lemma read_buf_loop_inv:
  assumes "read_buf_loop e sample_period k (buf, prev_t, t_old) s = (Inr (buf', prev_t', t'), s')"
  shows "\<exists>qs. buf' = buf @ flatten qs \<and> length qs \<le> k \<and>
           spaced (ticks_diff e) sample_period prev_t (map fst qs) \<and>
           prev_t' = last (prev_t # map fst qs)"
  using assms
proof (induction k arbitrary: buf prev_t t_old s)
  case 0
  then have "buf' = buf @ flatten []" "prev_t' = last (prev_t # map fst [])" by simp_all
  then show ?case by (intro exI [of _ "[]"]) simp
next
  case (Suc k)
  obtain r1 s1 where b: "read_buf_body e sample_period (buf, prev_t, t_old) s = (r1, s1)"
    by (cases "read_buf_body e sample_period (buf, prev_t, t_old) s")
  with Suc.prems obtain buf1 prev1 t1 where r1: "r1 = Inr (buf1, prev1, t1)"
    and rest: "read_buf_loop e sample_period k (buf1, prev1, t1) s1 = (Inr (buf', prev_t', t'), s')"
    by (cases r1) auto
  from Suc.IH [OF rest] obtain qs where qs: "buf' = buf1 @ flatten qs" "length qs \<le> k"
      "spaced (ticks_diff e) sample_period prev1 (map fst qs)"
      "prev_t' = last (prev1 # map fst qs)"
    by blast
  from read_buf_body_cases [OF b [unfolded r1]]
  consider (skip) "buf1 = buf" "prev1 = prev_t"
    | (capture) t x y z where "\<not> ticks_diff e t prev_t < sample_period"
        "buf1 = buf @ [t, x, y, z]" "prev1 = t"
    by blast
  then show ?case
  proof cases
    case skip
    with qs show ?thesis by (intro exI [of _ qs]) simp
  next
    case capture
    with qs show ?thesis by (intro exI [of _ "(t, x, y, z) # qs"]) simp
  qed
qed


lemma read_buf_samples:
  assumes "read_buf e n sample_period prev_t s = (Inr (buf, t_last), s')"
  shows "\<exists>qs. buf = flatten qs \<and> length qs \<le> nat n \<and>
           spaced (ticks_diff e) sample_period prev_t (map fst qs)"
proof -
  obtain r1 s1 where l: "read_buf_loop e sample_period (nat n) ([], prev_t, None) s = (r1, s1)"
    by (cases "read_buf_loop e sample_period (nat n) ([], prev_t, None) s")
  with assms obtain p t where "r1 = Inr (buf, p, t)"
    by (auto simp add: read_buf_def split: sum.splits option.splits)
  with l read_buf_loop_inv [of e sample_period "nat n" "[]" prev_t None s buf p t s1]
  show ?thesis by auto
qed


text \<open>
  Claim C5. In a batch that \<open>read_buf\<close> returns for the period \<open>sample_period\<close>, every
  captured timestamp is at least \<open>sample_period\<close> after the captured timestamp before
  it, and the first one after the argument \<open>prev_t\<close>, the elapsed time being measured
  by \<open>utime.ticks_diff\<close>.
\<close>

theorem read_buf_period:
  assumes "read_buf e n sample_period prev_t s = (Inr (buf, t_last), s')"
    and "i < length (timestamps buf)"
  shows "sample_period \<le>
           ticks_diff e (timestamps buf ! i)
             (if i = 0 then prev_t else timestamps buf ! (i - 1))"
proof -
  from read_buf_samples [OF assms(1)] obtain qs where "buf = flatten qs"
      "spaced (ticks_diff e) sample_period prev_t (map fst qs)"
    by blast
  then have "spaced (ticks_diff e) sample_period prev_t (timestamps buf)"
    by (simp add: timestamps_flatten)
  from spaced_nth [OF this assms(2)] show ?thesis .
qed

text \<open>The equations that run the sampler on a concrete board.\<close>

lemmas sampler_simps =
  read_buf_def read_buf_body_def utime_ticks_us_def array_i_append_def ax_x_def ax_y_def
  ax_z_def ax_axis_def twos_complement_def ACCEL_XOUT_H_def ACCEL_XOUT_L_def
  ACCEL_YOUT_H_def ACCEL_YOUT_L_def ACCEL_ZOUT_H_def ACCEL_ZOUT_L_def AX_ADDR_def
  numeral_3_eq_3

lemma example_batch:
  "fst (read_buf example_board 3 1000 0 module_init) =
     Inr ([1000, 2313, 2313, 2313, 2000, 2313, 2313, 2313, 3000, 2313, 2313, 2313], 3000)"
  by (simp add: sampler_simps run_simps)



theorem read_buf_period_witness:
  "(\<exists>s'. read_buf example_board 3 1000 0 module_init =
       (Inr ([1000, 2313, 2313, 2313, 2000, 2313, 2313, 2313, 3000, 2313, 2313, 2313], 3000), s')) \<and>
   1000 \<le> ticks_diff example_board 2000 1000"
proof -
  let ?B = "[1000, 2313, 2313, 2313, 2000, 2313, 2313, 2313, 3000, 2313, 2313, 2313 :: int]"
  obtain s' where run: "read_buf example_board 3 1000 0 module_init = (Inr (?B, 3000), s')"
    using example_batch by (cases "read_buf example_board 3 1000 0 module_init") simp
  have "1 < length (timestamps ?B)" by simp
  from read_buf_period [OF run this] run show ?thesis by auto
qed

text \<open>
  Claim C4 asks that a completed call returns exactly \<open>number_of_samples\<close> quadruples
  and the timestamp of the last captured sample. The code does not do that: a pass
  that comes too early runs \<open>continue\<close>, which in a \<open>for\<close> loop uses up one of the
  \<open>number_of_samples\<close> passes instead of waiting, and \<open>t\<close> is the last clock reading
  whether or not that pass captured. On the example board, whose clock advances 1000
  per reading, a batch of 3 with period 1001 holds one quadruple, captured at 2000,
  and the returned timestamp is 3000.
\<close>

theorem read_buf_short_batch:
  "fst (read_buf example_board 3 1001 0 module_init) = Inr ([2000, 2313, 2313, 2313], 3000)"
  by (simp add: sampler_simps run_simps)

subsection \<open>Initialisation\<close>

lemma I2C_scan_trace:
  assumes "I2C_scan e h s = (r, s1)"
  shows "trace s1 = trace s @ [Scan r]"
  using assms by (auto simp add: I2C_scan_def Let_def)

lemma I2C_is_ready_trace:
  assumes "I2C_is_ready e h a s = (r, s1)"
  shows "trace s1 = trace s @ [IsReady a r]"
  using assms by (auto simp add: I2C_is_ready_def Let_def)

text \<open>Waiting for the device puts nothing on the bus that counts as a transfer.\<close>

lemma wait_for_device_traffic:
  "wait_for_device e do_scan s = Some s' \<Longrightarrow> traffic (trace s') = traffic (trace s)"
proof (induction e do_scan s s' rule: wait_for_device.raw_induct [rotated, consumes 1, case_names step])
  case (step wait e do_scan s s')
  obtain check_ready s1 where c:
    "(if do_scan then
        (case i2c0 s of (h, sa) \<Rightarrow>
           (case I2C_scan e h sa of (slaves, sb) \<Rightarrow>
              (AX_ADDR \<in> set slaves,
               print (''I2C device addresses: '' @ join '', '' (map str slaves)) sb)))
      else (True, s)) = (check_ready, s1)"
    by (cases "(if do_scan then
        (case i2c0 s of (h, sa) \<Rightarrow>
           (case I2C_scan e h sa of (slaves, sb) \<Rightarrow>
              (AX_ADDR \<in> set slaves,
               print (''I2C device addresses: '' @ join '', '' (map str slaves)) sb)))
      else (True, s))")
  have t1: "traffic (trace s1) = traffic (trace s)"
  proof (cases do_scan)
    case False
    with c show ?thesis by simp
  next
    case True
    obtain h sa where h: "i2c0 s = (h, sa)" by (cases "i2c0 s")
    obtain slaves sb where sc: "I2C_scan e h sa = (slaves, sb)" by (cases "I2C_scan e h sa")
    from True c h sc
    have "s1 = print (''I2C device addresses: '' @ join '', '' (map str slaves)) sb"
      by simp
    with i2c0_effect(1) [OF h] I2C_scan_trace [OF sc] show ?thesis by simp
  qed
  show ?case
  proof (cases check_ready)
    case False
    with step(2) c have "wait e do_scan (pyb_delay 1000 s1) = Some s'" by simp
    from step(1) [OF this] t1 show ?thesis by simp
  next
    case True
    obtain h s2 where h: "i2c0 s1 = (h, s2)" by (cases "i2c0 s1")
    obtain ready s3 where r: "I2C_is_ready e h AX_ADDR s2 = (ready, s3)"
      by (cases "I2C_is_ready e h AX_ADDR s2")
    have t3: "traffic (trace s3) = traffic (trace s)"
      using t1 i2c0_effect(1) [OF h] I2C_is_ready_trace [OF r] by simp
    show ?thesis
    proof (cases ready)
      case True
      with step(2) c \<open>check_ready\<close> h r have "s' = print ''Ready!'' s3" by simp
      with t3 show ?thesis by simp
    next
      case False
      with step(2) c \<open>check_ready\<close> h r
      have "wait e do_scan (pyb_delay 1000 (print ''AX is not ready.'' s3)) = Some s'" by simp
      from step(1) [OF this] t3 show ?thesis by simp
    qed
  qed
qed

lemma wait_for_device_writes:
  assumes "wait_for_device e do_scan s = Some s'"
  shows "writes (trace s') = writes (trace s)"
proof -
  have "writes (traffic (trace s')) = writes (traffic (trace s))"
    using wait_for_device_traffic [OF assms] by simp
  then show ?thesis by (simp only: writes_traffic)
qed

lemma FULL_SCALE_keys: "(FULL_SCALE k = None) = (k \<notin> {2, 4, 8, 16})"
  by (simp add: FULL_SCALE_def)

text \<open>
  Claim C6, as amended. If the configured full-scale value is not one of 2, 4, 8 and
  16, \<open>init_accelerometer\<close> never completes: whenever it returns, the wait for the
  device has ended without a register write, and one of two things has happened.
  Either the clock-select masked write returned and the call raises the KeyError of
  the \<open>FULL_SCALE\<close> lookup: by then exactly one register write has been issued, to
  \<open>PWR_MGMT_1\<close>, of the value \<open>(old & ~mask) | (1 & mask)\<close> where \<open>old\<close> is what that
  masked write read from \<open>PWR_MGMT_1\<close> and \<open>mask\<close> is the clock-select mask, so every
  bit outside the mask is as it was read; no write to \<open>ACCEL_CONFIG\<close> has been issued.
  Or the clock-select masked write itself raised: the call raises that same error,
  and no register write has been issued.
\<close>

theorem init_accelerometer_invalid_full_scale:
  assumes "FULL_SCALE_CHOICE e \<notin> {2, 4, 8, 16}"
    and "init_accelerometer e do_scan s = Some (r, s')"
  shows "\<exists>sw. wait_for_device e do_scan s = Some sw \<and> writes (trace sw) = writes (trace s) \<and>
           ((\<exists>old s1.
               ax_read e PWR_MGMT_1 True sw = (Inr (Conv old), s1) \<and>
               ax_write_masked e PWR_MGMT_1 1 PWR_MGMT_1_CLKSEL_MASK False sw = (Inr None, s') \<and>
               r = Inl (KeyError (FULL_SCALE_CHOICE e)) \<and>
               writes (trace s') =
                 writes (trace s) @
                   [(PWR_MGMT_1,
                     (old AND NOT PWR_MGMT_1_CLKSEL_MASK) OR (1 AND PWR_MGMT_1_CLKSEL_MASK))] \<and>
               (\<forall>n. \<not> bit PWR_MGMT_1_CLKSEL_MASK n \<longrightarrow>
                  bit ((old AND NOT PWR_MGMT_1_CLKSEL_MASK) OR (1 AND PWR_MGMT_1_CLKSEL_MASK)) n =
                  bit old n)) \<or>
            (\<exists>err.
               ax_write_masked e PWR_MGMT_1 1 PWR_MGMT_1_CLKSEL_MASK False sw = (Inl err, s') \<and>
               r = Inl err \<and> writes (trace s') = writes (trace s)))"
proof -
  from assms(2) obtain sw where w: "wait_for_device e do_scan s = Some sw"
    by (auto simp add: init_accelerometer_def split: option.splits)
  note w1 = wait_for_device_writes [OF w]
  obtain r2 s2 where m: "ax_write_masked e PWR_MGMT_1 1 PWR_MGMT_1_CLKSEL_MASK False sw = (r2, s2)"
    by (cases "ax_write_masked e PWR_MGMT_1 1 PWR_MGMT_1_CLKSEL_MASK False sw")
  from assms(1) have none: "FULL_SCALE (FULL_SCALE_CHOICE e) = None"
    by (simp add: FULL_SCALE_keys)
  have "(\<exists>old s1.
               ax_read e PWR_MGMT_1 True sw = (Inr (Conv old), s1) \<and>
               ax_write_masked e PWR_MGMT_1 1 PWR_MGMT_1_CLKSEL_MASK False sw = (Inr None, s') \<and>
               r = Inl (KeyError (FULL_SCALE_CHOICE e)) \<and>
               writes (trace s') =
                 writes (trace s) @
                   [(PWR_MGMT_1,
                     (old AND NOT PWR_MGMT_1_CLKSEL_MASK) OR (1 AND PWR_MGMT_1_CLKSEL_MASK))] \<and>
               (\<forall>n. \<not> bit PWR_MGMT_1_CLKSEL_MASK n \<longrightarrow>
                  bit ((old AND NOT PWR_MGMT_1_CLKSEL_MASK) OR (1 AND PWR_MGMT_1_CLKSEL_MASK)) n =
                  bit old n)) \<or>
            (\<exists>err.
               ax_write_masked e PWR_MGMT_1 1 PWR_MGMT_1_CLKSEL_MASK False sw = (Inl err, s') \<and>
               r = Inl err \<and> writes (trace s') = writes (trace s))"
  proof (cases r2)
    case (Inl err)
    with assms(2) w m have "r = Inl err" "s' = s2" by (simp_all add: init_accelerometer_def)
    moreover from ax_write_masked_cases [OF m] Inl have "writes (trace s2) = writes (trace sw)"
      by auto
    ultimately show ?thesis using w1 m Inl by simp
  next
    case (Inr u)
    with assms(2) w m none have rs: "r = Inl (KeyError (FULL_SCALE_CHOICE e))" "s' = s2"
      by (simp_all add: init_accelerometer_def)
    from ax_write_masked_cases [OF m] Inr
    obtain old s1 where o: "ax_read e PWR_MGMT_1 True sw = (Inr (Conv old), s1)"
        "writes (trace s2) =
           writes (trace sw) @
             [(PWR_MGMT_1, (old AND NOT PWR_MGMT_1_CLKSEL_MASK) OR (1 AND PWR_MGMT_1_CLKSEL_MASK))]"
        "r2 = Inr None"
      by auto
    have "\<forall>n. \<not> bit PWR_MGMT_1_CLKSEL_MASK n \<longrightarrow>
        bit ((old AND NOT PWR_MGMT_1_CLKSEL_MASK) OR (1 AND PWR_MGMT_1_CLKSEL_MASK)) n =
        bit old n"
      by (simp add: masked_update_keeps_bits)
    with rs o m w1 show ?thesis by auto
  qed
  with w w1 show ?thesis by blast
qed

lemmas init_simps =
  init_accelerometer_def I2C_scan_def I2C_is_ready_def print_def
  PWR_MGMT_1_def PWR_MGMT_1_CLKSEL_MASK_def AX_ADDR_def FULL_SCALE_def

lemma example_init:
  "map_option fst (init_accelerometer (example_board\<lparr>FULL_SCALE_CHOICE := 3\<rparr>) True module_init) =
     Some (Inl (KeyError 3))"
  "map_option (writes \<circ> trace \<circ> snd)
     (init_accelerometer (example_board\<lparr>FULL_SCALE_CHOICE := 3\<rparr>) True module_init) =
     Some [(PWR_MGMT_1, 17)]"
  unfolding init_accelerometer_def
  by (subst wait_for_device.simps, simp add: init_simps run_simps)+

text \<open>
  Claim C6 as stated fails: with \<open>FULL_SCALE_CHOICE = 3\<close> on the example board,
  \<open>init_accelerometer\<close> raises KeyError, and by then it has written 17 to \<open>PWR_MGMT_1\<close>.
\<close>

theorem init_accelerometer_writes_before_rejecting:
  "map_option fst (init_accelerometer (example_board\<lparr>FULL_SCALE_CHOICE := 3\<rparr>) True module_init) =
     Some (Inl (KeyError 3)) \<and>
   map_option (writes \<circ> trace \<circ> snd)
     (init_accelerometer (example_board\<lparr>FULL_SCALE_CHOICE := 3\<rparr>) True module_init) =
     Some [(PWR_MGMT_1, 17)]"
  using example_init by (rule conjI)

theorem init_accelerometer_invalid_full_scale_witness:
  "\<exists>s' sw old s1.
     init_accelerometer (example_board\<lparr>FULL_SCALE_CHOICE := 3\<rparr>) True module_init =
       Some (Inl (KeyError 3), s') \<and>
     wait_for_device (example_board\<lparr>FULL_SCALE_CHOICE := 3\<rparr>) True module_init = Some sw \<and>
     ax_read (example_board\<lparr>FULL_SCALE_CHOICE := 3\<rparr>) PWR_MGMT_1 True sw = (Inr (Conv old), s1) \<and>
     writes (trace s') =
       [(PWR_MGMT_1, (old AND NOT PWR_MGMT_1_CLKSEL_MASK) OR (1 AND PWR_MGMT_1_CLKSEL_MASK))] \<and>
     writes (trace s') = [(PWR_MGMT_1, 17)]"
proof -
  let ?e = "example_board\<lparr>FULL_SCALE_CHOICE := 3\<rparr>"
  from example_init(1) obtain r s' where run: "init_accelerometer ?e True module_init = Some (r, s')"
    by (cases "init_accelerometer ?e True module_init") auto
  with example_init have r: "r = Inl (KeyError 3)" and w: "writes (trace s') = [(PWR_MGMT_1, 17)]"
    by simp_all
  have c: "FULL_SCALE_CHOICE ?e \<notin> {2, 4, 8, 16}" by (simp add: example_board_def)
  have w0: "writes (trace module_init) = []" by (simp add: module_init_def)
  from init_accelerometer_invalid_full_scale [OF c run] w w0
  obtain sw old s1 where "wait_for_device ?e True module_init = Some sw"
      "ax_read ?e PWR_MGMT_1 True sw = (Inr (Conv old), s1)"
      "writes (trace s') =
        [(PWR_MGMT_1, (old AND NOT PWR_MGMT_1_CLKSEL_MASK) OR (1 AND PWR_MGMT_1_CLKSEL_MASK))]"
    by auto
  with run r w show ?thesis by blast
qed

end
